theory Spec2Isabelle
  imports Main "HOL-Library.Char_ord" "HOL-Library.List_Lexorder" "HOL-Library.Sublist"
begin

section \<open>JSON values as the converter sees them\<close>

text \<open>
  \<^verbatim>\<open>ucd_to_harness.py\<close> works on the values that \<^verbatim>\<open>json.load\<close> returns: \<^verbatim>\<open>None\<close>,
  booleans, integers, floats, strings, lists and dicts with string keys. A dict keeps
  its insertion order, so it is an association list; a decoded dict has no key twice,
  and \<open>map_of\<close> is its lookup. A character is a code point below 256. The program
  only tests a float for truth and prints it, so a float is given by these three
  observations: whether it is non-zero, its \<^verbatim>\<open>str()\<close> text and its \<^verbatim>\<open>json.dumps\<close> text.
\<close>

datatype json =
    JNull
  | JBool bool
  | JInt int
  | JFloat bool string string
  | JStr string
  | JList "json list"
  | JObj "(string \<times> json) list"

type_synonym obj = "(string \<times> json) list"

subsection \<open>Python built-ins used by the source\<close>

text \<open>\<^verbatim>\<open>d.get(k)\<close>: the value, or \<^verbatim>\<open>None\<close> when the key is absent.\<close>

definition dict_get :: "obj \<Rightarrow> string \<Rightarrow> json" where
  "dict_get d k = (case map_of d k of Some v \<Rightarrow> v | None \<Rightarrow> JNull)"

text \<open>Truth value of a Python object, as \<^verbatim>\<open>if x\<close>, \<^verbatim>\<open>x or y\<close> and \<^verbatim>\<open>not x\<close> test it.\<close>

fun truthy :: "json \<Rightarrow> bool" where
  "truthy JNull = False"
| "truthy (JBool b) = b"
| "truthy (JInt i) = (i \<noteq> 0)"
| "truthy (JFloat nz s d) = nz"
| "truthy (JStr s) = (s \<noteq> [])"
| "truthy (JList xs) = (xs \<noteq> [])"
| "truthy (JObj kvs) = (kvs \<noteq> [])"

text \<open>\<^verbatim>\<open>a or b\<close> is \<^verbatim>\<open>a\<close> when \<^verbatim>\<open>a\<close> is true, else \<^verbatim>\<open>b\<close>.\<close>

definition py_or :: "json \<Rightarrow> json \<Rightarrow> json" where
  "py_or a b = (if truthy a then a else b)"

text \<open>\<^verbatim>\<open>str.lower()\<close> on code points below 256: A to Z, and U+00C0 to U+00DE except the
  multiplication sign U+00D7, move up by 32.\<close>

definition lower_char :: "char \<Rightarrow> char" where
  "lower_char c =
     (let n = (of_char c :: nat)
      in if (65 \<le> n \<and> n \<le> 90) \<or> (192 \<le> n \<and> n \<le> 222 \<and> n \<noteq> 215)
         then char_of (n + 32) else c)"

definition lower :: "string \<Rightarrow> string" where
  "lower s = map lower_char s"

text \<open>Whitespace as \<^verbatim>\<open>str.strip()\<close> removes it: tab to carriage return, the four
  separators U+001C to U+001F, space, U+0085 and U+00A0.\<close>

definition is_space :: "char \<Rightarrow> bool" where
  "is_space c =
     (let n = (of_char c :: nat)
      in (9 \<le> n \<and> n \<le> 13) \<or> (28 \<le> n \<and> n \<le> 32) \<or> n = 133 \<or> n = 160)"

text \<open>\<^verbatim>\<open>s.strip()\<close> is a true value exactly when some character is not whitespace.\<close>

definition strip_nonempty :: "string \<Rightarrow> bool" where
  "strip_nonempty s = (\<exists>c \<in> set s. \<not> is_space c)"

text \<open>\<^verbatim>\<open>sub in s\<close> on strings: \<^verbatim>\<open>sub\<close> occurs in \<^verbatim>\<open>s\<close> as a contiguous block.\<close>

fun str_in :: "string \<Rightarrow> string \<Rightarrow> bool" where
  "str_in sub [] = (sub = [])"
| "str_in sub (c # cs) = (prefix sub (c # cs) \<or> str_in sub cs)"

section \<open>The entity classifier: \<^verbatim>\<open>detect_kind\<close>\<close>

text \<open>The five strings \<^verbatim>\<open>detect_kind\<close> returns.\<close>

datatype kind = Application | Component | Environment | Process | Unknown

text \<open>The four tests made on one lower-cased declared-type value; \<open>None\<close> when the
  loop goes on to the next key.\<close>

definition kind_of_declared :: "string \<Rightarrow> kind option" where
  "kind_of_declared v =
     (if str_in ''application'' v \<and> \<not> str_in ''template'' v then Some Application
      else if str_in ''component'' v \<and> \<not> str_in ''template'' v then Some Component
      else if str_in ''environment'' v then Some Environment
      else if str_in ''process'' v then Some Process
      else None)"

text \<open>The loop over the declared-type keys; \<open>None\<close> when it ends without a return.\<close>

fun declared_loop :: "string list \<Rightarrow> obj \<Rightarrow> kind option" where
  "declared_loop [] ob = None"
| "declared_loop (key # keys) ob =
     (case map_of ob key of
        Some (JStr s) \<Rightarrow>
          (case kind_of_declared (lower s) of
             Some k \<Rightarrow> Some k
           | None \<Rightarrow> declared_loop keys ob)
      | _ \<Rightarrow> declared_loop keys ob)"

definition has_key :: "obj \<Rightarrow> string \<Rightarrow> bool" where
  "has_key ob k = (k \<in> fst ` set ob)"

definition detect_kind :: "obj \<Rightarrow> string \<Rightarrow> kind" where
  "detect_kind ob path =
     (case declared_loop [''objectType'', ''class'', ''entityType'', ''type''] ob of
        Some k \<Rightarrow> k
      | None \<Rightarrow>
         (let pstr = lower path
          in if str_in ''applications'' pstr \<and> \<not> str_in ''process'' pstr then Application
             else if str_in ''components'' pstr \<and> \<not> str_in ''template'' pstr then Component
             else if str_in ''environments'' pstr then Environment
             else if str_in ''process'' pstr \<or> str_in ''processes'' pstr then Process
             else if has_key ob ''components'' \<and> has_key ob ''environments'' then Application
             else if has_key ob ''component'' \<or> has_key ob ''componentName'' then Component
             else if has_key ob ''environment'' \<or> has_key ob ''environmentName'' then Environment
             else if has_key ob ''steps'' \<or> has_key ob ''rootActivity'' then Process
             else Unknown))"

subsection \<open>The three layers, as the specification names them\<close>

definition declared_type_layer :: "obj \<Rightarrow> kind option" where
  "declared_type_layer ob =
     declared_loop [''objectType'', ''class'', ''entityType'', ''type''] ob"

definition path_layer :: "string \<Rightarrow> kind option" where
  "path_layer path =
     (let pstr = lower path
      in if str_in ''applications'' pstr \<and> \<not> str_in ''process'' pstr then Some Application
         else if str_in ''components'' pstr \<and> \<not> str_in ''template'' pstr then Some Component
         else if str_in ''environments'' pstr then Some Environment
         else if str_in ''process'' pstr \<or> str_in ''processes'' pstr then Some Process
         else None)"

definition structural_layer :: "obj \<Rightarrow> kind option" where
  "structural_layer ob =
     (if has_key ob ''components'' \<and> has_key ob ''environments'' then Some Application
      else if has_key ob ''component'' \<or> has_key ob ''componentName'' then Some Component
      else if has_key ob ''environment'' \<or> has_key ob ''environmentName'' then Some Environment
      else if has_key ob ''steps'' \<or> has_key ob ''rootActivity'' then Some Process
      else None)"

section \<open>Printing Python values\<close>

text \<open>\<^verbatim>\<open>sep.join(xs)\<close>.\<close>

fun join :: "string \<Rightarrow> string list \<Rightarrow> string" where
  "join sep [] = []"
| "join sep [x] = x"
| "join sep (x # y # ys) = x @ sep @ join sep (y # ys)"

text \<open>Decimal digits of a natural number, and \<^verbatim>\<open>str(i)\<close> for an integer.\<close>

fun digits :: "nat \<Rightarrow> string" where
  "digits n =
     (if n < 10 then [char_of (48 + n)]
      else digits (n div 10) @ [char_of (48 + n mod 10)])"

declare digits.simps [simp del]

definition str_int :: "int \<Rightarrow> string" where
  "str_int i = (if i < 0 then CHR ''-'' # digits (nat (- i)) else digits (nat i))"

definition hex_digit :: "nat \<Rightarrow> char" where
  "hex_digit d = (if d < 10 then char_of (48 + d) else char_of (87 + d))"

definition hex2 :: "nat \<Rightarrow> string" where
  "hex2 n = [hex_digit (n div 16), hex_digit (n mod 16)]"

text \<open>\<^verbatim>\<open>repr\<close> of a string: double quotes when the text has a single quote and no
  double quote, single quotes otherwise; the quote and the backslash are escaped, tab,
  newline and carriage return are written with their letters, and every other
  non-printable code point (below 32, 127 to 160, and the soft hyphen 173) as
  a two-digit hexadecimal escape.\<close>

definition repr_quote :: "string \<Rightarrow> char" where
  "repr_quote s = (if CHR 0x27 \<in> set s \<and> CHR 0x22 \<notin> set s then CHR 0x22 else CHR 0x27)"

definition repr_char :: "char \<Rightarrow> char \<Rightarrow> string" where
  "repr_char q c =
     (let n = (of_char c :: nat)
      in if c = q \<or> c = CHR 0x5C then [CHR 0x5C, c]
         else if n = 9 then [CHR 0x5C, CHR ''t'']
         else if n = 10 then [CHR 0x5C, CHR ''n'']
         else if n = 13 then [CHR 0x5C, CHR ''r'']
         else if n < 32 \<or> n = 127 then [CHR 0x5C, CHR ''x''] @ hex2 n
         else if n < 127 then [c]
         else if n < 161 \<or> n = 173 then [CHR 0x5C, CHR ''x''] @ hex2 n
         else [c])"

definition repr_str :: "string \<Rightarrow> string" where
  "repr_str s = (let q = repr_quote s in q # concat (map (repr_char q) s) @ [q])"

fun py_repr :: "json \<Rightarrow> string" where
  "py_repr JNull = ''None''"
| "py_repr (JBool b) = (if b then ''True'' else ''False'')"
| "py_repr (JInt i) = str_int i"
| "py_repr (JFloat nz s d) = s"
| "py_repr (JStr s) = repr_str s"
| "py_repr (JList xs) = ''['' @ join '', '' (map py_repr xs) @ '']''"
| "py_repr (JObj kvs) =
     ''{'' @ join '', '' (map (\<lambda>kv. repr_str (fst kv) @ '': '' @ py_repr (snd kv)) kvs) @ ''}''"

text \<open>\<^verbatim>\<open>str(x)\<close>: a string is itself, everything else prints as its \<^verbatim>\<open>repr\<close>.\<close>

definition py_str :: "json \<Rightarrow> string" where
  "py_str v = (case v of JStr s \<Rightarrow> s | _ \<Rightarrow> py_repr v)"

text \<open>\<^verbatim>\<open>json.dumps\<close> with its defaults (\<^verbatim>\<open>ensure_ascii\<close>, a comma and a space between
  items, a colon and a space after a key). In a string everything outside space to
  tilde is escaped, as are the double quote and the backslash. With \<^verbatim>\<open>sort_keys\<close> the
  items of every dict are written in the order of their keys.\<close>

definition json_escape_char :: "char \<Rightarrow> string" where
  "json_escape_char c =
     (let n = (of_char c :: nat)
      in if n = 0x22 then [CHR 0x5C, CHR 0x22]
         else if n = 0x5C then [CHR 0x5C, CHR 0x5C]
         else if n = 10 then [CHR 0x5C, CHR ''n'']
         else if n = 13 then [CHR 0x5C, CHR ''r'']
         else if n = 9 then [CHR 0x5C, CHR ''t'']
         else if n = 8 then [CHR 0x5C, CHR ''b'']
         else if n = 12 then [CHR 0x5C, CHR ''f'']
         else if 32 \<le> n \<and> n \<le> 126 then [c]
         else [CHR 0x5C, CHR ''u'', CHR ''0'', CHR ''0''] @ hex2 n)"

definition json_str :: "string \<Rightarrow> string" where
  "json_str s = CHR 0x22 # concat (map json_escape_char s) @ [CHR 0x22]"

fun json_dumps :: "bool \<Rightarrow> json \<Rightarrow> string" where
  "json_dumps sort_keys JNull = ''null''"
| "json_dumps sort_keys (JBool b) = (if b then ''true'' else ''false'')"
| "json_dumps sort_keys (JInt i) = str_int i"
| "json_dumps sort_keys (JFloat nz s d) = d"
| "json_dumps sort_keys (JStr s) = json_str s"
| "json_dumps sort_keys (JList xs) = ''['' @ join '', '' (map (json_dumps sort_keys) xs) @ '']''"
| "json_dumps sort_keys (JObj kvs) =
     (let items = map (\<lambda>kv. (fst kv, json_dumps sort_keys (snd kv))) kvs;
          items = (if sort_keys then sort_key fst items else items)
      in ''{'' @ join '', '' (map (\<lambda>kv. json_str (fst kv) @ '': '' @ snd kv) items) @ ''}'')"

section \<open>The name resolver: \<^verbatim>\<open>pull_name\<close>\<close>

text \<open>The first loop of \<^verbatim>\<open>pull_name\<close>: the first key whose value is a string that is
  not blank. \<open>None\<close> when the loop ends without a return.\<close>

fun pull_name_keys :: "string list \<Rightarrow> obj \<Rightarrow> string option" where
  "pull_name_keys [] ob = None"
| "pull_name_keys (k # ks) ob =
     (case map_of ob k of
        Some (JStr s) \<Rightarrow> (if strip_nonempty s then Some s else pull_name_keys ks ob)
      | _ \<Rightarrow> pull_name_keys ks ob)"

text \<open>The second loop, over the items of the object in their order: the first value
  that is a dict with a string under \<^verbatim>\<open>name\<close>.\<close>

fun pull_name_nested :: "obj \<Rightarrow> string option" where
  "pull_name_nested [] = None"
| "pull_name_nested ((k, v) # rest) =
     (case v of
        JObj d \<Rightarrow>
          (case map_of d ''name'' of
             Some (JStr s) \<Rightarrow> Some s
           | _ \<Rightarrow> pull_name_nested rest)
      | _ \<Rightarrow> pull_name_nested rest)"

definition name_keys :: "string list" where
  "name_keys = [''name'', ''application'', ''applicationName'', ''component'',
     ''componentName'', ''environment'', ''environmentName'', ''displayName'']"

text \<open>\<open>hex6\<close> is the value of \<^verbatim>\<open>uuid.uuid4().hex[:6]\<close> that the call draws.\<close>

definition pull_name :: "string \<Rightarrow> obj \<Rightarrow> string" where
  "pull_name hex6 ob =
     (case pull_name_keys name_keys ob of
        Some s \<Rightarrow> s
      | None \<Rightarrow>
         (case pull_name_nested ob of
            Some s \<Rightarrow> s
          | None \<Rightarrow> ''unnamed-'' @ hex6))"

section \<open>The process flattener: \<^verbatim>\<open>flatten_process_steps\<close>\<close>

record step =
  step_name :: string
  step_description :: string
  step_properties :: obj

text \<open>The dict that \<^verbatim>\<open>visit\<close> appends for a node.\<close>

definition step_of :: "obj \<Rightarrow> step" where
  "step_of node =
     (let nm = py_or (py_or (py_or (dict_get node ''name'') (dict_get node ''commandName''))
                         (dict_get node ''type'')) (JStr ''Step'');
          props = py_or (py_or (dict_get node ''properties'') (dict_get node ''propDefs'')) (JObj []);
          desc = py_or (dict_get node ''description'') (JStr [])
      in \<lparr>step_name = py_str nm,
          step_description = py_str desc,
          step_properties = (case props of JObj p \<Rightarrow> p | _ \<Rightarrow> [])\<rparr>)"

definition child_keys :: "string list" where
  "child_keys = [''children'', ''next'', ''steps'', ''activities'']"

lemma size_map_of:
  "map_of kvs k = Some v \<Longrightarrow> size v < Suc (size_list (size_prod (\<lambda>_. 0) size) kvs)"
  by (induction kvs) (auto split: if_splits)

lemma size_dict_get_JList:
  assumes "dict_get node k = JList cs" and "c \<in> set cs"
  shows "size c < size (JObj node)"
proof -
  from assms(1) have "map_of node k = Some (JList cs)"
    by (auto simp: dict_get_def split: option.splits)
  then have "size (JList cs) < size (JObj node)"
    using size_map_of by fastforce
  moreover from assms(2) have "size c < size (JList cs)"
    by (induction cs) auto
  ultimately show ?thesis by simp
qed

lemma size_dict_get_JObj:
  assumes "dict_get node k = JObj c"
  shows "size (JObj c) < size (JObj node)"
proof -
  from assms have "map_of node k = Some (JObj c)"
    by (auto simp: dict_get_def split: option.splits)
  then show ?thesis
    using size_map_of by fastforce
qed

text \<open>The nested function \<^verbatim>\<open>visit\<close>: the steps it appends, in order. Anything that is
  not a dict appends nothing.\<close>

function (sequential) visit :: "json \<Rightarrow> step list" where
  "visit (JObj node) =
     step_of node #
     concat (map (\<lambda>child_key.
        (case dict_get node child_key of
           JList cs \<Rightarrow> concat (map visit cs)
         | JObj c \<Rightarrow> visit (JObj c)
         | _ \<Rightarrow> [])) child_keys)"
| "visit _ = []"
  by pat_completeness auto
termination
  by (relation "measure size")
     (auto simp: size_dict_get_JList [simplified] size_dict_get_JObj [simplified])

text \<open>The entry points: the list \<^verbatim>\<open>steps\<close> when the traversal is over.\<close>

definition traverse :: "obj \<Rightarrow> step list" where
  "traverse ob =
     (case dict_get ob ''rootActivity'' of
        JObj r \<Rightarrow> visit (JObj r)
      | _ \<Rightarrow>
         (case dict_get ob ''steps'' of
            JList ss \<Rightarrow> concat (map visit ss)
          | _ \<Rightarrow>
             (case dict_get ob ''activities'' of
                JList ss \<Rightarrow> concat (map visit ss)
              | _ \<Rightarrow> visit (JObj ob))))"

text \<open>The key of the last loop, and the loop with its two accumulators.\<close>

definition step_key :: "step \<Rightarrow> string \<times> string" where
  "step_key s = (step_name s, json_dumps True (JObj (step_properties s)))"

fun dedup_loop :: "(string \<times> string) set \<Rightarrow> step list \<Rightarrow> step list \<Rightarrow> step list" where
  "dedup_loop seen uniq [] = uniq"
| "dedup_loop seen uniq (s # ss) =
     (let k = step_key s
      in if k \<notin> seen then dedup_loop (insert k seen) (uniq @ [s]) ss
         else dedup_loop seen uniq ss)"

definition flatten_process_steps :: "obj \<Rightarrow> step list" where
  "flatten_process_steps ob = dedup_loop {} [] (traverse ob)"

section \<open>The buckets and associations of \<^verbatim>\<open>main\<close>\<close>

subsection \<open>Python dicts in insertion order\<close>

text \<open>\<^verbatim>\<open>d[k] = v\<close>: an existing key keeps its place and takes the new value, a new key goes
  to the end.\<close>

fun dict_set :: "('k \<times> 'v) list \<Rightarrow> 'k \<Rightarrow> 'v \<Rightarrow> ('k \<times> 'v) list" where
  "dict_set [] k v = [(k, v)]"
| "dict_set ((k', v') # d) k v = (if k' = k then (k, v) # d else (k', v') # dict_set d k v)"

text \<open>\<^verbatim>\<open>d.setdefault(k, v)\<close>, as a statement: nothing changes when the key is there.\<close>

definition dict_setdefault :: "('k \<times> 'v) list \<Rightarrow> 'k \<Rightarrow> 'v \<Rightarrow> ('k \<times> 'v) list" where
  "dict_setdefault d k v = (case map_of d k of Some _ \<Rightarrow> d | None \<Rightarrow> d @ [(k, v)])"

text \<open>\<^verbatim>\<open>d.setdefault(k, []).extend(xs)\<close>: the list under \<^verbatim>\<open>k\<close> grows by \<^verbatim>\<open>xs\<close>; a missing
  key is added first with the empty list.\<close>

definition dict_extend :: "('k \<times> 'v list) list \<Rightarrow> 'k \<Rightarrow> 'v list \<Rightarrow> ('k \<times> 'v list) list" where
  "dict_extend d k xs =
     (case map_of d k of Some old \<Rightarrow> dict_set d k (old @ xs) | None \<Rightarrow> d @ [(k, xs)])"

text \<open>The keys of a dict after \<^verbatim>\<open>d[k] = v\<close> or \<^verbatim>\<open>d.setdefault(k, v)\<close>: a key that is there
  keeps its place, a new key goes to the end.\<close>

definition add_key :: "'k list \<Rightarrow> 'k \<Rightarrow> 'k list" where
  "add_key ks k = (if k \<in> set ks then ks else ks @ [k])"

subsection \<open>Indexing the objects by kind and name\<close>

record buckets =
  applications :: "(string \<times> obj) list"
  components :: "(string \<times> obj) list"
  environments :: "(string \<times> obj) list"
  processes :: "(string \<times> obj) list"

definition empty_buckets :: buckets where
  "empty_buckets = \<lparr>applications = [], components = [], environments = [], processes = []\<rparr>"

text \<open>The body of the indexing loop for one item \<^verbatim>\<open>(p, obj)\<close>.\<close>

definition index_one :: "string \<Rightarrow> buckets \<Rightarrow> string \<times> obj \<Rightarrow> buckets" where
  "index_one hex6 b item =
     (let knd = detect_kind (snd item) (fst item);
          nm = pull_name hex6 (snd item)
      in if knd = Application then b\<lparr>applications := dict_set (applications b) nm (snd item)\<rparr>
         else if knd = Component then b\<lparr>components := dict_setdefault (components b) nm (snd item)\<rparr>
         else if knd = Environment
           then b\<lparr>environments := dict_setdefault (environments b) nm (snd item)\<rparr>
         else if knd = Process then b\<lparr>processes := processes b @ [(nm, snd item)]\<rparr>
         else b)"

text \<open>The loop; \<open>rnd i\<close> is the random suffix that the call of \<^verbatim>\<open>pull_name\<close> for item
  number \<open>i\<close> draws.\<close>

fun index_loop :: "(nat \<Rightarrow> string) \<Rightarrow> nat \<Rightarrow> buckets \<Rightarrow> (string \<times> obj) list \<Rightarrow> buckets" where
  "index_loop rnd i b [] = b"
| "index_loop rnd i b (item # items) = index_loop rnd (Suc i) (index_one (rnd i) b item) items"

definition index_objects :: "(nat \<Rightarrow> string) \<Rightarrow> (string \<times> obj) list \<Rightarrow> buckets" where
  "index_objects rnd items = index_loop rnd 0 empty_buckets items"

subsection \<open>Process ownership\<close>

text \<open>The pairs \<^verbatim>\<open>("app", name)\<close> and \<^verbatim>\<open>("comp", name)\<close>.\<close>

datatype owner = OwnerApp string | OwnerComp string

text \<open>One of the two loops over explicit field names: the value under the first key
  that holds a string, where the loop breaks.\<close>

fun first_str_field :: "string list \<Rightarrow> obj \<Rightarrow> string option" where
  "first_str_field [] pobj = None"
| "first_str_field (key # keys) pobj =
     (case map_of pobj key of
        Some (JStr s) \<Rightarrow> Some s
      | _ \<Rightarrow> first_str_field keys pobj)"

text \<open>The variable \<^verbatim>\<open>owner\<close> through its five assignments, in the order of the source.\<close>

definition resolve_owner :: "string list \<Rightarrow> string list \<Rightarrow> string \<Rightarrow> obj \<Rightarrow> owner option" where
  "resolve_owner app_names comp_names pname pobj =
     (let text = lower (json_dumps False (JObj pobj));
          hay = lower pname @ '' '' @ text;
          owner0 = None;
          owner1 = (case first_str_field [''application'', ''applicationName''] pobj of
                      Some a \<Rightarrow> Some (OwnerApp a) | None \<Rightarrow> owner0);
          owner2 = (case first_str_field [''component'', ''componentName''] pobj of
                      Some c \<Rightarrow> Some (OwnerComp c) | None \<Rightarrow> owner1);
          owner3 = (if owner2 = None
                    then (case find (\<lambda>a. str_in (lower a) hay) app_names of
                            Some a \<Rightarrow> Some (OwnerApp a) | None \<Rightarrow> owner2)
                    else owner2);
          owner4 = (if owner3 = None
                    then (case find (\<lambda>c. str_in (lower c) hay) comp_names of
                            Some c \<Rightarrow> Some (OwnerComp c) | None \<Rightarrow> owner3)
                    else owner3)
      in owner4)"

type_synonym step_map = "(string \<times> step list) list"

text \<open>The body of the loop over \<^verbatim>\<open>processes\<close>, on the two maps it updates.\<close>

definition associate_one ::
    "string list \<Rightarrow> string list \<Rightarrow> step_map \<times> step_map \<Rightarrow> string \<times> obj \<Rightarrow> step_map \<times> step_map" where
  "associate_one app_names comp_names maps proc =
     (let owner = resolve_owner app_names comp_names (fst proc) (snd proc);
          steps = flatten_process_steps (snd proc)
      in case owner of
           Some (OwnerApp a) \<Rightarrow> (dict_extend (fst maps) a steps, snd maps)
         | Some (OwnerComp c) \<Rightarrow> (fst maps, dict_extend (snd maps) c steps)
         | None \<Rightarrow> maps)"

definition associate_processes ::
    "string list \<Rightarrow> string list \<Rightarrow> (string \<times> obj) list \<Rightarrow> step_map \<times> step_map" where
  "associate_processes app_names comp_names procs =
     foldl (associate_one app_names comp_names)
       (map (\<lambda>k. (k, [])) app_names, map (\<lambda>k. (k, [])) comp_names) procs"

subsection \<open>Services of an application\<close>

text \<open>The loop over the entries of one list-valued key.\<close>

fun entry_names :: "json list \<Rightarrow> string list" where
  "entry_names [] = []"
| "entry_names (it # its) =
     (case it of
        JObj d \<Rightarrow>
          (let nm = py_or (py_or (dict_get d ''name'') (dict_get d ''component''))
                      (dict_get d ''componentName'')
           in if truthy nm then [py_str nm] else [])
      | JStr s \<Rightarrow> [s]
      | _ \<Rightarrow> []) @ entry_names its"

text \<open>The list \<^verbatim>\<open>comps\<close> after the loop over the three keys.\<close>

definition listed_components :: "obj \<Rightarrow> string list" where
  "listed_components aobj =
     concat (map (\<lambda>key. (case dict_get aobj key of JList v \<Rightarrow> entry_names v | _ \<Rightarrow> []))
       [''components'', ''componentList'', ''applicationComponents''])"

definition services_of :: "string list \<Rightarrow> obj \<Rightarrow> string list" where
  "services_of comp_names aobj =
     (let comps = listed_components aobj
      in if comps = [] then comp_names else comps)"

definition derive_services :: "buckets \<Rightarrow> (string \<times> string list) list" where
  "derive_services b =
     foldl (\<lambda>m app. dict_set m (fst app) (services_of (map fst (components b)) (snd app)))
       (map (\<lambda>app. (fst app, [])) (applications b)) (applications b)"

subsection \<open>Environment of an application\<close>

datatype py_error = IndexError | RecursionError

text \<open>\<^verbatim>\<open>xs[0]\<close>.\<close>

definition first_item :: "'a list \<Rightarrow> py_error + 'a" where
  "first_item xs = (case xs of [] \<Rightarrow> Inl IndexError | x # _ \<Rightarrow> Inr x)"

text \<open>\<^verbatim>\<open>list(d.keys()) or [placeholder]\<close>.\<close>

definition keys_or :: "('k \<times> 'v) list \<Rightarrow> 'k \<Rightarrow> 'k list" where
  "keys_or d placeholder = (if map fst d = [] then [placeholder] else map fst d)"

text \<open>The two lines of the loop body: \<^verbatim>\<open>match\<close> is the first name that contains the
  lower-cased application name, and \<^verbatim>\<open>match or env_names[0]\<close> falls back when \<^verbatim>\<open>match\<close>
  is \<^verbatim>\<open>None\<close> or the empty string.\<close>

definition choose_env :: "string list \<Rightarrow> string \<Rightarrow> py_error + string" where
  "choose_env env_names app =
     (case find (\<lambda>e. str_in (lower app) (lower e)) env_names of
        Some m \<Rightarrow> (if m \<noteq> [] then Inr m else first_item env_names)
      | None \<Rightarrow> first_item env_names)"

fun env_loop ::
    "string list \<Rightarrow> (string \<times> string) list \<Rightarrow> string list \<Rightarrow> py_error + (string \<times> string) list" where
  "env_loop env_names app_env [] = Inr app_env"
| "env_loop env_names app_env (app # apps) =
     (case choose_env env_names app of
        Inl e \<Rightarrow> Inl e
      | Inr chosen \<Rightarrow> env_loop env_names (dict_set app_env app chosen) apps)"

definition select_environments :: "buckets \<Rightarrow> py_error + (string \<times> string) list" where
  "select_environments b =
     env_loop (keys_or (environments b) ''PlaceholderEnv'') []
       (keys_or (applications b) ''PlaceholderApp'')"

subsection \<open>The association part of \<^verbatim>\<open>main\<close>, from the buckets to the four maps\<close>

record associations =
  app_process_map :: step_map
  comp_process_map :: step_map
  app_services :: "(string \<times> string list) list"
  app_env :: "(string \<times> string) list"

definition associate :: "buckets \<Rightarrow> py_error + associations" where
  "associate b =
     (let maps = associate_processes (map fst (applications b)) (map fst (components b))
                   (processes b);
          services = derive_services b
      in case select_environments b of
           Inl e \<Rightarrow> Inl e
         | Inr envs \<Rightarrow>
             Inr \<lparr>app_process_map = fst maps, comp_process_map = snd maps,
                  app_services = services, app_env = envs\<rparr>)"

section \<open>The resolution order of names, in the words of the specification\<close>

text \<open>The value under a key when it is a string with a character that is not
  whitespace.\<close>

definition usable_name :: "obj \<Rightarrow> string \<Rightarrow> string option" where
  "usable_name ob k =
     (case map_of ob k of
        Some (JStr s) \<Rightarrow> (if strip_nonempty s then Some s else None)
      | _ \<Rightarrow> None)"

text \<open>The string under \<^verbatim>\<open>name\<close> of a value that is a mapping.\<close>

definition nested_name :: "json \<Rightarrow> string option" where
  "nested_name v =
     (case v of
        JObj d \<Rightarrow> (case map_of d ''name'' of Some (JStr s) \<Rightarrow> Some s | _ \<Rightarrow> None)
      | _ \<Rightarrow> None)"

text \<open>First the keys in their order, then the nested mappings in the order of the
  items, then the synthesized name.\<close>

definition resolve_name_spec :: "string \<Rightarrow> obj \<Rightarrow> string" where
  "resolve_name_spec hex6 ob =
     (case List.map_filter (usable_name ob) name_keys of
        s # _ \<Rightarrow> s
      | [] \<Rightarrow>
         (case List.map_filter (\<lambda>kv. nested_name (snd kv)) ob of
            s # _ \<Rightarrow> s
          | [] \<Rightarrow> ''unnamed-'' @ hex6))"

section \<open>Shapes of values and sample processes\<close>

text \<open>\<^verbatim>\<open>isinstance(v, dict)\<close> and \<^verbatim>\<open>isinstance(v, list)\<close>.\<close>

definition is_dict :: "json \<Rightarrow> bool" where
  "is_dict v = (case v of JObj _ \<Rightarrow> True | _ \<Rightarrow> False)"

definition is_list :: "json \<Rightarrow> bool" where
  "is_list v = (case v of JList _ \<Rightarrow> True | _ \<Rightarrow> False)"

text \<open>The object without one of its keys.\<close>

definition del_key :: "string \<Rightarrow> obj \<Rightarrow> obj" where
  "del_key k ob = filter (\<lambda>kv. fst kv \<noteq> k) ob"

text \<open>Three steps named \<^verbatim>\<open>Build\<close>: the second has the properties of the first, written in
  another order, and a description; the third has other properties.\<close>

definition repeated_steps :: obj where
  "repeated_steps =
     [(''steps'', JList
        [JObj [(''name'', JStr ''Build''),
               (''properties'', JObj [(''a'', JInt 1), (''b'', JInt 2)])],
         JObj [(''name'', JStr ''Build''),
               (''properties'', JObj [(''b'', JInt 2), (''a'', JInt 1)]),
               (''description'', JStr ''again'')],
         JObj [(''name'', JStr ''Build''), (''properties'', JObj [(''a'', JInt 2)])]])]"

definition build_step :: "obj \<Rightarrow> string \<Rightarrow> step" where
  "build_step props desc =
     \<lparr>step_name = ''Build'', step_description = desc, step_properties = props\<rparr>"

text \<open>A process whose \<^verbatim>\<open>rootActivity\<close> is a string and whose \<^verbatim>\<open>steps\<close> is a number, with
  a list under \<^verbatim>\<open>activities\<close>; and one with no list under either key.\<close>

definition misshapen_process :: obj where
  "misshapen_process =
     [(''rootActivity'', JStr ''main''), (''steps'', JInt 3),
      (''activities'', JList [JObj [(''name'', JStr ''Deploy'')], JStr ''noise''])]"

definition bare_process :: obj where
  "bare_process = [(''rootActivity'', JStr ''main''), (''steps'', JInt 3), (''name'', JStr ''Lonely'')]"

text \<open>Two processes without a usable entry point: one with a mapping under \<^verbatim>\<open>steps\<close>,
  one with a list under \<^verbatim>\<open>children\<close>.\<close>

definition steps_mapping_process :: obj where
  "steps_mapping_process = [(''steps'', JObj [(''name'', JStr ''x'')])]"

definition parent_process :: obj where
  "parent_process =
     [(''name'', JStr ''p''), (''children'', JList [JObj [(''name'', JStr ''c'')]])]"

section \<open>The classified items of a run, and sample inputs\<close>

text \<open>Kind, name and object of every item, in the order of the input; \<open>rnd i\<close> is the
  random suffix drawn for item \<open>i\<close>.\<close>

fun classified ::
    "(nat \<Rightarrow> string) \<Rightarrow> nat \<Rightarrow> (string \<times> obj) list \<Rightarrow> (kind \<times> string \<times> obj) list" where
  "classified rnd i [] = []"
| "classified rnd i (item # items) =
     (detect_kind (snd item) (fst item), pull_name (rnd i) (snd item), snd item)
       # classified rnd (Suc i) items"

text \<open>The named objects of one kind, in the order of the input.\<close>

definition named_of :: "kind \<Rightarrow> (kind \<times> string \<times> obj) list \<Rightarrow> (string \<times> obj) list" where
  "named_of knd cl = map snd (filter (\<lambda>c. fst c = knd) cl)"

text \<open>Two environments of one name; and three applications, the first and the last
  of one name.\<close>

definition two_envs :: "(string \<times> obj) list" where
  "two_envs =
     [(''export/environments/a.json'', [(''name'', JStr ''prod''), (''tier'', JInt 1)]),
      (''export/environments/b.json'', [(''name'', JStr ''prod''), (''tier'', JInt 2)])]"

definition colliding_apps :: "(string \<times> obj) list" where
  "colliding_apps =
     [(''export/applications/a.json'', [(''name'', JStr ''Checkout''), (''rev'', JInt 1)]),
      (''export/applications/b.json'', [(''name'', JStr ''Billing'')]),
      (''export/applications/c.json'', [(''name'', JStr ''Checkout''), (''rev'', JInt 2)])]"

text \<open>A process that names an application and a component.\<close>

definition both_fields :: obj where
  "both_fields =
     [(''name'', JStr ''deploy''), (''application'', JStr ''Checkout''),
      (''component'', JStr ''web''), (''steps'', JList [JObj [(''name'', JStr ''Build'')]])]"

section \<open>Environment choice and list entries, in the words of the specification\<close>

text \<open>The first known environment whose name contains the application's name, case
  ignored; else the first known environment; else the placeholder.\<close>

definition env_choice_spec :: "string list \<Rightarrow> string \<Rightarrow> string" where
  "env_choice_spec envs app =
     (case find (\<lambda>e. str_in (lower app) (lower e)) envs of
        Some e \<Rightarrow> e
      | None \<Rightarrow> (case envs of [] \<Rightarrow> ''PlaceholderEnv'' | e # _ \<Rightarrow> e))"

text \<open>What one entry of a component list contributes: for a mapping the first true
  value among \<^verbatim>\<open>name\<close>, \<^verbatim>\<open>component\<close> and \<^verbatim>\<open>componentName\<close>, printed; a string itself;
  anything else nothing.\<close>

definition entry_name :: "json \<Rightarrow> string list" where
  "entry_name it =
     (case it of
        JObj d \<Rightarrow>
          (case filter truthy [dict_get d ''name'', dict_get d ''component'',
                  dict_get d ''componentName''] of
             nm # _ \<Rightarrow> [py_str nm]
           | [] \<Rightarrow> [])
      | JStr s \<Rightarrow> [s]
      | _ \<Rightarrow> [])"

text \<open>Sample buckets: two environments and two applications; an application without
  a component list and one with lists; a process nobody owns and one with an owner.\<close>

definition sample_buckets :: buckets where
  "sample_buckets =
     \<lparr>applications = [(''East-App'', []), (''West'', [])],
      components = [],
      environments = [(''prod-east'', []), (''prod-west'', [])],
      processes = []\<rparr>"

definition app_no_components :: obj where
  "app_no_components = [(''name'', JStr ''Checkout''), (''objectType'', JStr ''Application'')]"

definition app_with_components :: obj where
  "app_with_components =
     [(''name'', JStr ''Billing''),
      (''components'', JList [JStr ''web'', JObj [(''component'', JStr ''db'')], JInt 5]),
      (''componentList'', JStr ''ignored''),
      (''applicationComponents'', JList [JObj [(''componentName'', JStr ''queue'')]])]"

definition orphan_process :: "string \<times> obj" where
  "orphan_process = (''nightly'', [(''steps'', JList [JObj [(''name'', JStr ''Backup'')]])])"

definition owned_process :: "string \<times> obj" where
  "owned_process =
     (''release'', [(''application'', JStr ''Checkout''),
        (''steps'', JList [JObj [(''name'', JStr ''Build'')], JObj [(''name'', JStr ''Deploy'')]])])"

section \<open>The traversal on object graphs\<close>









section \<open>The flattener on decoded JSON, with the frames it may use\<close>





section \<open>Properties of the classifier\<close>

lemma case_if_option:
  "(case (if c then Some x else y) of Some k \<Rightarrow> k | None \<Rightarrow> z) =
   (if c then x else (case y of Some k \<Rightarrow> k | None \<Rightarrow> z))"
  by simp

lemma detect_kind_layers:
  "detect_kind ob path =
     (case declared_type_layer ob of Some k \<Rightarrow> k
      | None \<Rightarrow> (case path_layer path of Some k \<Rightarrow> k
         | None \<Rightarrow> (case structural_layer ob of Some k \<Rightarrow> k | None \<Rightarrow> Unknown)))"
  unfolding detect_kind_def declared_type_layer_def path_layer_def structural_layer_def Let_def
    case_if_option
  by (simp only: option.case)

text \<open>
  Claim C4. \<^verbatim>\<open>detect_kind\<close> tries the declared-type fields, then the path, then the keys
  of the object, and returns at the first layer that matches: whenever the declared-type
  layer gives a kind, that kind is the result whatever the path says; the path layer
  decides only when the declared-type layer gives nothing, and the structural layer only
  when both give nothing. The object \<^verbatim>\<open>{"objectType": "Component"}\<close> at a path with
  \<^verbatim>\<open>environments\<close> in it is a Component.
\<close>

theorem detect_kind_priority:
  "(declared_type_layer ob = Some k \<longrightarrow> detect_kind ob path = k) \<and>
   (declared_type_layer ob = None \<longrightarrow> path_layer path = Some k \<longrightarrow> detect_kind ob path = k) \<and>
   (declared_type_layer ob = None \<longrightarrow> path_layer path = None \<longrightarrow> structural_layer ob = Some k
      \<longrightarrow> detect_kind ob path = k) \<and>
   (declared_type_layer ob = None \<longrightarrow> path_layer path = None \<longrightarrow> structural_layer ob = None
      \<longrightarrow> detect_kind ob path = Unknown) \<and>
   detect_kind [(''objectType'', JStr ''Component'')] ''export/environments/foo.json'' = Component"
proof -
  have "detect_kind [(''objectType'', JStr ''Component'')] ''export/environments/foo.json''
          = Component"
    by code_simp
  then show ?thesis
    by (simp add: detect_kind_layers)
qed

theorem detect_kind_priority_witness:
  "declared_type_layer [(''objectType'', JStr ''Component'')] = Some Component \<and>
   path_layer ''export/environments/foo.json'' = Some Environment \<and>
   detect_kind [(''objectType'', JStr ''Component'')] ''export/environments/foo.json'' = Component"
proof -
  have d: "declared_type_layer [(''objectType'', JStr ''Component'')] = Some Component"
    by code_simp
  have p: "path_layer ''export/environments/foo.json'' = Some Environment"
    by code_simp
  from detect_kind_priority [of "[(''objectType'', JStr ''Component'')]" Component
      "''export/environments/foo.json''"] d p
  show ?thesis by simp
qed

section \<open>Properties of the name resolver\<close>

lemma pull_name_keys_map_filter:
  "pull_name_keys ks ob =
     (case List.map_filter (usable_name ob) ks of [] \<Rightarrow> None | s # _ \<Rightarrow> Some s)"
  by (induction ks)
     (auto simp: List.map_filter_simps usable_name_def split: option.splits json.splits)

lemma pull_name_nested_map_filter:
  "pull_name_nested ob =
     (case List.map_filter (\<lambda>kv. nested_name (snd kv)) ob of [] \<Rightarrow> None | s # _ \<Rightarrow> Some s)"
  by (induction ob rule: pull_name_nested.induct)
     (auto simp: List.map_filter_simps nested_name_def split: option.splits json.splits)

lemma usable_name_nonempty: "usable_name ob k = Some s \<Longrightarrow> s \<noteq> []"
  by (auto simp: usable_name_def strip_nonempty_def split: option.splits json.splits if_splits)

lemma map_filter_usable_nonempty:
  assumes "List.map_filter (usable_name ob) ks = s # rest"
  shows "s \<noteq> []"
proof -
  from assms have "s \<in> set (List.map_filter (usable_name ob) ks)" by simp
  then obtain k where "usable_name ob k = Some s"
    by (auto simp: List.map_filter_def)
  then show ?thesis by (rule usable_name_nonempty)
qed

text \<open>
  Claim C3, as the source has it. A string that holds only whitespace does not count:
  with \<^verbatim>\<open>{"name": " ", "application": "Checkout"}\<close> the resolver passes over \<^verbatim>\<open>name\<close>
  and returns \<^verbatim>\<open>Checkout\<close>, where the claim has the first non-empty string, the blank
  one. And the name found in a nested mapping is returned as it is, so
  \<^verbatim>\<open>{"meta": {"name": ""}}\<close> resolves to the empty string, where the claim has a
  non-empty name in every case.
\<close>

theorem pull_name_counterexample:
  "pull_name ''a1b2c3'' [(''name'', JStr '' ''), (''application'', JStr ''Checkout'')]
     = ''Checkout'' \<and>
   pull_name ''a1b2c3'' [(''meta'', JObj [(''name'', JStr [])])] = []"
  by code_simp

text \<open>
  Claim C3, amended. For every mapping, \<^verbatim>\<open>pull_name\<close> returns the value of the first key
  among \<^verbatim>\<open>name\<close>, \<^verbatim>\<open>application\<close>, \<^verbatim>\<open>applicationName\<close>, \<^verbatim>\<open>component\<close>, \<^verbatim>\<open>componentName\<close>,
  \<^verbatim>\<open>environment\<close>, \<^verbatim>\<open>environmentName\<close>, \<^verbatim>\<open>displayName\<close> whose value is a string with a
  character that is not whitespace; when there is none, the string under \<^verbatim>\<open>name\<close> of the
  first item whose value is a mapping that has one; and otherwise \<^verbatim>\<open>unnamed-\<close> followed
  by the random suffix. A name taken from one of the eight keys is not empty, and
  neither is the synthesized one.
\<close>

theorem pull_name_resolution:
  "pull_name hex6 ob = resolve_name_spec hex6 ob \<and>
   (List.map_filter (usable_name ob) name_keys \<noteq> [] \<longrightarrow> pull_name hex6 ob \<noteq> []) \<and>
   (List.map_filter (usable_name ob) name_keys = [] \<longrightarrow>
    List.map_filter (\<lambda>kv. nested_name (snd kv)) ob = [] \<longrightarrow>
      pull_name hex6 ob = ''unnamed-'' @ hex6 \<and> pull_name hex6 ob \<noteq> [])"
  by (auto simp: pull_name_def resolve_name_spec_def pull_name_keys_map_filter
        pull_name_nested_map_filter dest: map_filter_usable_nonempty split: list.splits)

theorem pull_name_resolution_witness:
  "List.map_filter (usable_name [(''label'', JInt 7), (''displayName'', JStr ''Front door'')])
     name_keys \<noteq> [] \<and>
   pull_name ''a1b2c3'' [(''label'', JInt 7), (''displayName'', JStr ''Front door'')]
     = ''Front door'' \<and>
   pull_name ''a1b2c3'' [(''label'', JInt 7)] = ''unnamed-a1b2c3''"
proof -
  have a: "List.map_filter
             (usable_name [(''label'', JInt 7), (''displayName'', JStr ''Front door'')]) name_keys
             = [''Front door'']"
    by code_simp
  have b: "List.map_filter (usable_name [(''label'', JInt 7)]) name_keys = []"
    by code_simp
  have c: "List.map_filter (\<lambda>kv. nested_name (snd kv)) [(''label'', JInt 7)] = []"
    by code_simp
  from pull_name_resolution [of "''a1b2c3''"
      "[(''label'', JInt 7), (''displayName'', JStr ''Front door'')]"]
    pull_name_resolution [of "''a1b2c3''" "[(''label'', JInt 7)]"] a b c
  show ?thesis by (simp add: resolve_name_spec_def)
qed

section \<open>Properties of the flattener\<close>

subsection \<open>The last loop keeps the first step of every key\<close>

lemma dedup_loop_acc: "dedup_loop seen uniq ts = uniq @ dedup_loop seen [] ts"
proof (induction ts arbitrary: seen uniq)
  case Nil
  show ?case by simp
next
  case (Cons s ss)
  show ?case
    using Cons.IH [of "insert (step_key s) seen" "uniq @ [s]"]
      Cons.IH [of "insert (step_key s) seen" "[s]"] Cons.IH [of seen uniq]
    by (simp add: Let_def)
qed

lemma dedup_loop_Cons:
  "dedup_loop seen [] (s # ss) =
     (if step_key s \<in> seen then dedup_loop seen [] ss
      else s # dedup_loop (insert (step_key s) seen) [] ss)"
  using dedup_loop_acc [of "insert (step_key s) seen" "[s]" ss]
  by (simp add: Let_def)

lemma dedup_loop_keys:
  "step_key ` set (dedup_loop seen [] ts) = step_key ` set ts - seen"
  by (induction ts arbitrary: seen) (auto simp: dedup_loop_Cons simp del: dedup_loop.simps(2))

lemma dedup_loop_distinct: "distinct (map step_key (dedup_loop seen [] ts))"
proof (induction ts arbitrary: seen)
  case Nil
  show ?case by simp
next
  case (Cons s ss)
  have "step_key s \<notin> step_key ` set (dedup_loop (insert (step_key s) seen) [] ss)"
    by (simp add: dedup_loop_keys)
  with Cons.IH show ?case
    by (simp add: dedup_loop_Cons del: dedup_loop.simps(2))
qed

lemma dedup_loop_subseq: "subseq (dedup_loop seen [] ts) ts"
  by (induction ts arbitrary: seen) (auto simp: dedup_loop_Cons simp del: dedup_loop.simps(2))

lemma dedup_loop_first:
  "s \<in> set (dedup_loop seen [] ts) \<Longrightarrow> find (\<lambda>t. step_key t = step_key s) ts = Some s"
proof (induction ts arbitrary: seen)
  case Nil
  then show ?case by simp
next
  case (Cons t ts)
  show ?case
  proof (cases "step_key t \<in> seen")
    case True
    with Cons.prems have m: "s \<in> set (dedup_loop seen [] ts)"
      by (simp add: dedup_loop_Cons del: dedup_loop.simps(2))
    then have "step_key s \<in> step_key ` set (dedup_loop seen [] ts)" by blast
    then have "step_key s \<notin> seen" by (simp add: dedup_loop_keys)
    with True have "step_key t \<noteq> step_key s" by auto
    with Cons.IH [OF m] show ?thesis by simp
  next
    case False
    with Cons.prems have "s = t \<or> s \<in> set (dedup_loop (insert (step_key t) seen) [] ts)"
      by (simp add: dedup_loop_Cons del: dedup_loop.simps(2))
    then show ?thesis
    proof
      assume "s = t"
      then show ?thesis by simp
    next
      assume m: "s \<in> set (dedup_loop (insert (step_key t) seen) [] ts)"
      then have "step_key s \<in> step_key ` set (dedup_loop (insert (step_key t) seen) [] ts)"
        by blast
      then have "step_key t \<noteq> step_key s" by (auto simp: dedup_loop_keys)
      with Cons.IH [OF m] show ?thesis by simp
    qed
  qed
qed

lemma dedup_loop_one_per_key:
  assumes "s \<in> set ts"
  shows "\<exists>!u. u \<in> set (dedup_loop {} [] ts) \<and> step_key u = step_key s"
proof -
  from assms have "step_key s \<in> step_key ` set (dedup_loop {} [] ts)"
    by (simp add: dedup_loop_keys)
  then obtain u where u: "u \<in> set (dedup_loop {} [] ts)" "step_key u = step_key s"
    by auto
  have "inj_on step_key (set (dedup_loop {} [] ts))"
    using dedup_loop_distinct [of "{}" ts] by (simp add: distinct_map)
  with u show ?thesis
    unfolding inj_on_def by metis
qed

text \<open>
  Claim C5. The steps that \<^verbatim>\<open>flatten_process_steps\<close> returns have pairwise different keys,
  the key of a step being its name with the \<^verbatim>\<open>json.dumps(..., sort_keys=True)\<close> text of its
  properties. They are a subsequence of the traversal, in its order; every key of the
  traversal is the key of exactly one returned step, and that step is the first of the
  traversal with this key. So steps of one name and the same serialized properties
  collapse to the first of them, and steps of one name whose properties serialize
  differently all stay.
\<close>

theorem flatten_dedup:
  "distinct (map step_key (flatten_process_steps ob)) \<and>
   subseq (flatten_process_steps ob) (traverse ob) \<and>
   step_key ` set (flatten_process_steps ob) = step_key ` set (traverse ob) \<and>
   (\<forall>s \<in> set (traverse ob).
      \<exists>!u. u \<in> set (flatten_process_steps ob) \<and> step_key u = step_key s) \<and>
   (\<forall>s \<in> set (flatten_process_steps ob).
      find (\<lambda>t. step_key t = step_key s) (traverse ob) = Some s)"
  by (simp add: flatten_process_steps_def dedup_loop_distinct dedup_loop_subseq dedup_loop_keys
        dedup_loop_first dedup_loop_one_per_key)

theorem flatten_dedup_witness:
  "traverse repeated_steps =
     [build_step [(''a'', JInt 1), (''b'', JInt 2)] [],
      build_step [(''b'', JInt 2), (''a'', JInt 1)] ''again'',
      build_step [(''a'', JInt 2)] []] \<and>
   flatten_process_steps repeated_steps =
     [build_step [(''a'', JInt 1), (''b'', JInt 2)] [], build_step [(''a'', JInt 2)] []] \<and>
   step_key (build_step [(''b'', JInt 2), (''a'', JInt 1)] ''again'') =
     step_key (build_step [(''a'', JInt 1), (''b'', JInt 2)] []) \<and>
   find (\<lambda>t. step_key t = step_key (build_step [(''a'', JInt 2)] []))
     (traverse repeated_steps) = Some (build_step [(''a'', JInt 2)] []) \<and>
   distinct (map step_key (flatten_process_steps repeated_steps))"
proof -
  have t: "traverse repeated_steps =
     [build_step [(''a'', JInt 1), (''b'', JInt 2)] [],
      build_step [(''b'', JInt 2), (''a'', JInt 1)] ''again'',
      build_step [(''a'', JInt 2)] []]"
    by code_simp
  have f: "flatten_process_steps repeated_steps =
     [build_step [(''a'', JInt 1), (''b'', JInt 2)] [], build_step [(''a'', JInt 2)] []]"
    by code_simp
  have k: "step_key (build_step [(''b'', JInt 2), (''a'', JInt 1)] ''again'') =
     step_key (build_step [(''a'', JInt 1), (''b'', JInt 2)] [])"
    by code_simp
  have m: "build_step [(''a'', JInt 2)] [] \<in> set (flatten_process_steps repeated_steps)"
    by (simp add: f)
  from flatten_dedup [of repeated_steps] m
  have "find (\<lambda>t. step_key t = step_key (build_step [(''a'', JInt 2)] []))
          (traverse repeated_steps) = Some (build_step [(''a'', JInt 2)] [])"
    and "distinct (map step_key (flatten_process_steps repeated_steps))"
    by blast+
  with t f k show ?thesis
    by simp
qed

subsection \<open>The entry points and the nodes that are skipped\<close>

lemma visit_not_dict: "\<not> is_dict v \<Longrightarrow> visit v = []"
  by (cases v) (simp_all add: is_dict_def)

lemma visit_skips: "concat (map visit cs) = concat (map visit (filter is_dict cs))"
  by (induction cs) (simp_all add: visit_not_dict)

lemma dict_get_del_key:
  "dict_get (del_key k ob) k' = (if k' = k then JNull else dict_get ob k')"
  by (induction ob) (auto simp: dict_get_def del_key_def)

lemma step_of_del_key:
  "k \<notin> {''name'', ''commandName'', ''type'', ''properties'', ''propDefs'', ''description''}
     \<Longrightarrow> step_of (del_key k ob) = step_of ob"
  by (auto simp: step_of_def dict_get_del_key)

lemma visit_del_key:
  assumes "k \<notin> {''name'', ''commandName'', ''type'', ''properties'', ''propDefs'', ''description''}"
    and "k \<in> set child_keys \<longrightarrow> \<not> is_dict (dict_get ob k) \<and> \<not> is_list (dict_get ob k)"
  shows "visit (JObj (del_key k ob)) = visit (JObj ob)"
proof -
  have "(case dict_get (del_key k ob) ck of JList cs \<Rightarrow> concat (map visit cs)
          | JObj c \<Rightarrow> visit (JObj c) | _ \<Rightarrow> [])
      = (case dict_get ob ck of JList cs \<Rightarrow> concat (map visit cs)
          | JObj c \<Rightarrow> visit (JObj c) | _ \<Rightarrow> [])" if "ck \<in> set child_keys" for ck
    using assms(2) that
    by (cases "dict_get ob k") (auto simp: dict_get_del_key is_dict_def is_list_def)
  then show ?thesis
    using assms(1) by (simp add: step_of_del_key cong: map_cong)
qed

lemma dedup_loop_hd: "dedup_loop {} [] (s # ss) \<noteq> [] \<and> hd (dedup_loop {} [] (s # ss)) = s"
proof -
  have "dedup_loop {} [] (s # ss) = dedup_loop {step_key s} [s] ss"
    by (simp add: Let_def)
  moreover have "dedup_loop seen (u # us) ts \<noteq> [] \<and> hd (dedup_loop seen (u # us) ts) = u"
    for seen u us ts
    by (induction ts arbitrary: seen us) (simp_all add: Let_def)
  ultimately show ?thesis by simp
qed

lemma traverse_del_scalar:
  assumes "k = ''steps'' \<or> k = ''activities''"
    and "\<not> is_list (dict_get ob k)" and "\<not> is_dict (dict_get ob k)"
  shows "traverse ob = traverse (del_key k ob)"
proof -
  have v: "visit (JObj (del_key k ob)) = visit (JObj ob)"
    using assms by (intro visit_del_key) (auto simp: child_keys_def)
  from assms(1) show ?thesis
  proof
    assume k: "k = ''steps''"
    with assms(2,3) show ?thesis
      by (cases "dict_get ob ''steps''")
         (simp_all add: traverse_def dict_get_del_key is_dict_def is_list_def v [unfolded k] k
            del: visit.simps split: json.splits)
  next
    assume k: "k = ''activities''"
    with assms(2,3) show ?thesis
      by (cases "dict_get ob ''activities''")
         (simp_all add: traverse_def dict_get_del_key is_dict_def is_list_def v [unfolded k] k
            del: visit.simps split: json.splits)
  qed
qed

text \<open>
  Claim C10, as the source has it. An object with no usable entry point is passed to
  \<^verbatim>\<open>visit\<close> as a node, and \<^verbatim>\<open>visit\<close> goes on below it: \<^verbatim>\<open>{"steps": {"name": "x"}}\<close> has no
  mapping under \<^verbatim>\<open>rootActivity\<close> and no list under \<^verbatim>\<open>steps\<close> or \<^verbatim>\<open>activities\<close>, and gives
  two steps, its own and the one of the mapping under \<^verbatim>\<open>steps\<close>, which so is not
  ignored; \<^verbatim>\<open>{"name": "p", "children": [{"name": "c"}]}\<close> gives two steps as well. The
  claim has a single implicit step there.
\<close>

theorem implicit_step_counterexample:
  "\<not> is_dict (dict_get steps_mapping_process ''rootActivity'') \<and>
   \<not> is_list (dict_get steps_mapping_process ''steps'') \<and>
   \<not> is_list (dict_get steps_mapping_process ''activities'') \<and>
   flatten_process_steps steps_mapping_process =
     [\<lparr>step_name = ''Step'', step_description = [], step_properties = []\<rparr>,
      \<lparr>step_name = ''x'', step_description = [], step_properties = []\<rparr>] \<and>
   \<not> is_dict (dict_get parent_process ''rootActivity'') \<and>
   \<not> is_list (dict_get parent_process ''steps'') \<and>
   \<not> is_list (dict_get parent_process ''activities'') \<and>
   flatten_process_steps parent_process =
     [\<lparr>step_name = ''p'', step_description = [], step_properties = []\<rparr>,
      \<lparr>step_name = ''c'', step_description = [], step_properties = []\<rparr>]"
  by code_simp

text \<open>
  Claim C10, amended. The entry point is chosen by the shape of the values. A mapping
  under \<^verbatim>\<open>rootActivity\<close> is the root of the traversal; any other value there counts for
  nothing (the result is that of the object without the key), and then a list under
  \<^verbatim>\<open>steps\<close> is traversed, and when \<^verbatim>\<open>steps\<close> is no list, a list under \<^verbatim>\<open>activities\<close>. A
  value under \<^verbatim>\<open>steps\<close> or \<^verbatim>\<open>activities\<close> that is no list is no entry point, and it counts
  for nothing when it is no mapping either. With no mapping under \<^verbatim>\<open>rootActivity\<close> and
  no list under \<^verbatim>\<open>steps\<close> or \<^verbatim>\<open>activities\<close> the object itself is visited as a node: its
  own step comes first, then the steps of the lists and mappings under its \<^verbatim>\<open>children\<close>,
  \<^verbatim>\<open>next\<close>, \<^verbatim>\<open>steps\<close> and \<^verbatim>\<open>activities\<close>; its own step is the whole result when it has no
  list or mapping under these four keys. A node that is not a mapping gives no step.
\<close>

theorem flatten_entry_by_shape:
  "(\<forall>r. dict_get ob ''rootActivity'' = JObj r \<longrightarrow> traverse ob = visit (JObj r)) \<and>
   (\<not> is_dict (dict_get ob ''rootActivity'') \<longrightarrow>
      traverse ob = traverse (del_key ''rootActivity'' ob) \<and>
      (\<forall>ss. dict_get ob ''steps'' = JList ss \<longrightarrow> traverse ob = concat (map visit ss))) \<and>
   (\<not> is_dict (dict_get ob ''rootActivity'') \<longrightarrow> \<not> is_list (dict_get ob ''steps'') \<longrightarrow>
      (\<forall>ss. dict_get ob ''activities'' = JList ss \<longrightarrow> traverse ob = concat (map visit ss))) \<and>
   (\<not> is_dict (dict_get ob ''rootActivity'') \<longrightarrow> \<not> is_list (dict_get ob ''steps'') \<longrightarrow>
    \<not> is_list (dict_get ob ''activities'') \<longrightarrow>
      traverse ob = visit (JObj ob) \<and>
      traverse ob =
        step_of ob #
        concat (map (\<lambda>k. (case dict_get ob k of
                             JList cs \<Rightarrow> concat (map visit cs)
                           | JObj c \<Rightarrow> visit (JObj c)
                           | _ \<Rightarrow> [])) child_keys) \<and>
      flatten_process_steps ob \<noteq> [] \<and> hd (flatten_process_steps ob) = step_of ob \<and>
      ((\<forall>k \<in> set child_keys. \<not> is_dict (dict_get ob k) \<and> \<not> is_list (dict_get ob k)) \<longrightarrow>
         flatten_process_steps ob = [step_of ob])) \<and>
   (\<not> is_list (dict_get ob ''steps'') \<longrightarrow> \<not> is_dict (dict_get ob ''steps'') \<longrightarrow>
      traverse ob = traverse (del_key ''steps'' ob)) \<and>
   (\<not> is_list (dict_get ob ''activities'') \<longrightarrow> \<not> is_dict (dict_get ob ''activities'') \<longrightarrow>
      traverse ob = traverse (del_key ''activities'' ob)) \<and>
   (\<not> is_dict v \<longrightarrow> visit v = []) \<and>
   concat (map visit cs) = concat (map visit (filter is_dict cs))"
proof -
  have root: "traverse ob = visit (JObj r)" if "dict_get ob ''rootActivity'' = JObj r" for r
    using that by (simp add: traverse_def)
  have noroot: "traverse ob = traverse (del_key ''rootActivity'' ob)"
    if "\<not> is_dict (dict_get ob ''rootActivity'')"
  proof -
    have v: "visit (JObj (del_key ''rootActivity'' ob)) = visit (JObj ob)"
      by (rule visit_del_key) (simp_all add: child_keys_def)
    show ?thesis
      using that
      by (cases "dict_get ob ''rootActivity''")
         (simp_all add: traverse_def dict_get_del_key is_dict_def v del: visit.simps
            split: json.splits)
  qed
  have steps: "traverse ob = concat (map visit ss)"
    if "\<not> is_dict (dict_get ob ''rootActivity'')" "dict_get ob ''steps'' = JList ss" for ss
    using that by (cases "dict_get ob ''rootActivity''") (simp_all add: traverse_def is_dict_def)
  have acts: "traverse ob = concat (map visit ss)"
    if "\<not> is_dict (dict_get ob ''rootActivity'')" "\<not> is_list (dict_get ob ''steps'')"
       "dict_get ob ''activities'' = JList ss" for ss
    using that
    by (cases "dict_get ob ''rootActivity''"; cases "dict_get ob ''steps''")
       (simp_all add: traverse_def is_dict_def is_list_def)
  have self: "traverse ob = visit (JObj ob)"
    if "\<not> is_dict (dict_get ob ''rootActivity'')" "\<not> is_list (dict_get ob ''steps'')"
       "\<not> is_list (dict_get ob ''activities'')"
    using that
    by (cases "dict_get ob ''rootActivity''"; cases "dict_get ob ''steps''";
        cases "dict_get ob ''activities''")
       (simp_all add: traverse_def is_dict_def is_list_def)
  have hd: "flatten_process_steps ob \<noteq> [] \<and> hd (flatten_process_steps ob) = step_of ob"
    if "traverse ob = visit (JObj ob)"
    using that dedup_loop_hd by (simp add: flatten_process_steps_def del: dedup_loop.simps)
  have single: "flatten_process_steps ob = [step_of ob]"
    if t: "traverse ob = visit (JObj ob)"
      and "\<forall>k \<in> set child_keys. \<not> is_dict (dict_get ob k) \<and> \<not> is_list (dict_get ob k)"
  proof -
    have "(case dict_get ob k of JList cs \<Rightarrow> concat (map visit cs)
            | JObj c \<Rightarrow> visit (JObj c) | _ \<Rightarrow> []) = []" if "k \<in> set child_keys" for k
      using that \<open>\<forall>k \<in> set child_keys. _\<close>
      by (cases "dict_get ob k") (auto simp: is_dict_def is_list_def)
    then have "concat (map (\<lambda>k. (case dict_get ob k of JList cs \<Rightarrow> concat (map visit cs)
            | JObj c \<Rightarrow> visit (JObj c) | _ \<Rightarrow> [])) child_keys) = []"
      by simp
    then have "visit (JObj ob) = [step_of ob]" by simp
    with t have "traverse ob = [step_of ob]" by (simp del: visit.simps)
    then show ?thesis by (simp add: flatten_process_steps_def Let_def)
  qed
  have expand: "traverse ob =
        step_of ob #
        concat (map (\<lambda>k. (case dict_get ob k of
                             JList cs \<Rightarrow> concat (map visit cs)
                           | JObj c \<Rightarrow> visit (JObj c)
                           | _ \<Rightarrow> [])) child_keys)"
    if "traverse ob = visit (JObj ob)"
    using that by simp
  have fallback:
    "traverse ob = visit (JObj ob) \<and>
     traverse ob =
        step_of ob #
        concat (map (\<lambda>k. (case dict_get ob k of
                             JList cs \<Rightarrow> concat (map visit cs)
                           | JObj c \<Rightarrow> visit (JObj c)
                           | _ \<Rightarrow> [])) child_keys) \<and>
     flatten_process_steps ob \<noteq> [] \<and> hd (flatten_process_steps ob) = step_of ob \<and>
     ((\<forall>k \<in> set child_keys. \<not> is_dict (dict_get ob k) \<and> \<not> is_list (dict_get ob k)) \<longrightarrow>
        flatten_process_steps ob = [step_of ob])"
    if "\<not> is_dict (dict_get ob ''rootActivity'')" "\<not> is_list (dict_get ob ''steps'')"
       "\<not> is_list (dict_get ob ''activities'')"
    using self [OF that] expand hd single by blast
  have del_steps: "traverse ob = traverse (del_key ''steps'' ob)"
    if "\<not> is_list (dict_get ob ''steps'')" "\<not> is_dict (dict_get ob ''steps'')"
    using that by (intro traverse_del_scalar) simp_all
  have del_acts: "traverse ob = traverse (del_key ''activities'' ob)"
    if "\<not> is_list (dict_get ob ''activities'')" "\<not> is_dict (dict_get ob ''activities'')"
    using that by (intro traverse_del_scalar) simp_all
  show ?thesis
    using root noroot steps acts fallback del_steps del_acts visit_not_dict [of v]
      visit_skips [of cs]
    by blast
qed

theorem flatten_entry_by_shape_witness:
  "\<not> is_dict (dict_get misshapen_process ''rootActivity'') \<and>
   \<not> is_list (dict_get misshapen_process ''steps'') \<and>
   traverse misshapen_process =
     concat (map visit [JObj [(''name'', JStr ''Deploy'')], JStr ''noise'']) \<and>
   flatten_process_steps misshapen_process =
     [\<lparr>step_name = ''Deploy'', step_description = [], step_properties = []\<rparr>] \<and>
   \<not> is_list (dict_get bare_process ''activities'') \<and>
   flatten_process_steps bare_process = [step_of bare_process] \<and>
   step_of bare_process = \<lparr>step_name = ''Lonely'', step_description = [], step_properties = []\<rparr>"
proof -
  have a: "\<not> is_dict (dict_get misshapen_process ''rootActivity'')"
    "\<not> is_list (dict_get misshapen_process ''steps'')"
    "dict_get misshapen_process ''activities''
       = JList [JObj [(''name'', JStr ''Deploy'')], JStr ''noise'']"
    by code_simp+
  have b: "\<not> is_dict (dict_get bare_process ''rootActivity'')"
    "\<not> is_list (dict_get bare_process ''steps'')"
    "\<not> is_list (dict_get bare_process ''activities'')"
    "\<forall>k \<in> set child_keys. \<not> is_dict (dict_get bare_process k) \<and> \<not> is_list (dict_get bare_process k)"
    by code_simp+
  have c: "flatten_process_steps misshapen_process =
     [\<lparr>step_name = ''Deploy'', step_description = [], step_properties = []\<rparr>]"
    "step_of bare_process = \<lparr>step_name = ''Lonely'', step_description = [], step_properties = []\<rparr>"
    by code_simp+
  from flatten_entry_by_shape [of misshapen_process] flatten_entry_by_shape [of bare_process]
    a b c
  show ?thesis by blast
qed

section \<open>Properties of the buckets\<close>

lemma map_of_dict_set: "map_of (dict_set d k v) = (map_of d)(k \<mapsto> v)"
  by (induction d) (auto simp: fun_eq_iff)

lemma map_of_dict_setdefault: "map_of (dict_setdefault d k v) = map_of (d @ [(k, v)])"
  by (auto simp: dict_setdefault_def fun_eq_iff map_add_def split: option.splits)

lemma keys_dict_set: "fst ` set (dict_set d k v) = insert k (fst ` set d)"
proof -
  have "dom (map_of (dict_set d k v)) = dom ((map_of d)(k \<mapsto> v))"
    by (simp only: map_of_dict_set)
  then show ?thesis
    by (simp add: dom_map_of_conv_image_fst)
qed

lemma distinct_dict_set: "distinct (map fst d) \<Longrightarrow> distinct (map fst (dict_set d k v))"
  by (induction d) (auto simp: keys_dict_set)

lemma distinct_dict_setdefault:
  "distinct (map fst d) \<Longrightarrow> distinct (map fst (dict_setdefault d k v))"
  by (auto simp: dict_setdefault_def map_of_eq_None_iff split: option.splits)

lemma index_loop_buckets:
  "map_of (applications (index_loop rnd i b items)) =
     map_of (rev (named_of Application (classified rnd i items)) @ applications b) \<and>
   map_of (components (index_loop rnd i b items)) =
     map_of (components b @ named_of Component (classified rnd i items)) \<and>
   map_of (environments (index_loop rnd i b items)) =
     map_of (environments b @ named_of Environment (classified rnd i items)) \<and>
   processes (index_loop rnd i b items) =
     processes b @ named_of Process (classified rnd i items)"
proof (induction items arbitrary: i b)
  case Nil
  show ?case by (simp add: named_of_def)
next
  case (Cons item items)
  show ?case
    using Cons.IH [of "Suc i" "index_one (rnd i) b item"]
    by (cases "detect_kind (snd item) (fst item)")
       (simp_all add: named_of_def index_one_def Let_def map_of_dict_set map_of_dict_setdefault
          map_add_def fun_eq_iff split: option.splits)
qed

lemma index_loop_distinct:
  "distinct (map fst (applications b)) \<Longrightarrow> distinct (map fst (components b)) \<Longrightarrow>
   distinct (map fst (environments b)) \<Longrightarrow>
   distinct (map fst (applications (index_loop rnd i b items))) \<and>
   distinct (map fst (components (index_loop rnd i b items))) \<and>
   distinct (map fst (environments (index_loop rnd i b items)))"
proof (induction items arbitrary: i b)
  case Nil
  then show ?case by simp
next
  case (Cons item items)
  show ?case
    using Cons.prems
    by (simp del: distinct_map)
       (rule Cons.IH; simp add: index_one_def Let_def distinct_dict_set distinct_dict_setdefault
          del: distinct_map)
qed

lemma keys_of_dict_set: "map fst (dict_set d k v) = add_key (map fst d) k"
  by (induction d) (force simp: add_key_def)+

lemma keys_of_dict_setdefault: "map fst (dict_setdefault d k v) = add_key (map fst d) k"
proof (cases "map_of d k")
  case None
  then have "k \<notin> fst ` set d" by (simp add: map_of_eq_None_iff)
  with None show ?thesis by (simp add: dict_setdefault_def add_key_def)
next
  case (Some x)
  then have "k \<in> fst ` set d" by (metis map_of_eq_None_iff option.distinct(1))
  with Some show ?thesis by (simp add: dict_setdefault_def add_key_def)
qed

text \<open>Adding keys one by one leaves each at the place of its first occurrence.\<close>

lemma foldl_add_key: "foldl add_key [] ks = rev (remdups (rev ks))"
  by (induction ks rule: rev_induct) (auto simp: add_key_def)

lemma index_loop_keys:
  "map fst (applications (index_loop rnd i b items)) =
     foldl add_key (map fst (applications b))
       (map fst (named_of Application (classified rnd i items))) \<and>
   map fst (components (index_loop rnd i b items)) =
     foldl add_key (map fst (components b))
       (map fst (named_of Component (classified rnd i items))) \<and>
   map fst (environments (index_loop rnd i b items)) =
     foldl add_key (map fst (environments b))
       (map fst (named_of Environment (classified rnd i items)))"
proof (induction items arbitrary: i b)
  case Nil
  show ?case by (simp add: named_of_def)
next
  case (Cons item items)
  show ?case
    using Cons.IH [of "Suc i" "index_one (rnd i) b item"]
    by (cases "detect_kind (snd item) (fst item)")
       (simp_all add: named_of_def index_one_def Let_def keys_of_dict_set keys_of_dict_setdefault)
qed

text \<open>
  Claim C2, as the source has it. The environments bucket is filled with \<^verbatim>\<open>setdefault\<close>,
  as the components bucket is: of two environment objects that resolve to the name
  \<^verbatim>\<open>prod\<close>, the bucket keeps the first, and the later one does not replace it.
\<close>

theorem environment_collision_counterexample:
  "environments (index_objects (\<lambda>i. ''000000'') two_envs) =
     [(''prod'', [(''name'', JStr ''prod''), (''tier'', JInt 1)])]"
  by code_simp

text \<open>
  Claim C2, amended. Of the objects of one kind that resolve to one name, the
  applications bucket holds the last (\<open>map_of\<close> of the reversed list finds it), the
  components bucket and the environments bucket hold the first, and the process list
  holds all of them in the order of the input. No bucket has a name twice, and in
  each of the three buckets the names stand in the order of their first occurrences
  in the input: an application that is overwritten keeps its place.
\<close>

theorem bucket_collisions:
  "map_of (applications (index_objects rnd items)) =
     map_of (rev (named_of Application (classified rnd 0 items))) \<and>
   map_of (components (index_objects rnd items)) =
     map_of (named_of Component (classified rnd 0 items)) \<and>
   map_of (environments (index_objects rnd items)) =
     map_of (named_of Environment (classified rnd 0 items)) \<and>
   processes (index_objects rnd items) = named_of Process (classified rnd 0 items) \<and>
   distinct (map fst (applications (index_objects rnd items))) \<and>
   distinct (map fst (components (index_objects rnd items))) \<and>
   distinct (map fst (environments (index_objects rnd items))) \<and>
   map fst (applications (index_objects rnd items)) =
     rev (remdups (rev (map fst (named_of Application (classified rnd 0 items))))) \<and>
   map fst (components (index_objects rnd items)) =
     rev (remdups (rev (map fst (named_of Component (classified rnd 0 items))))) \<and>
   map fst (environments (index_objects rnd items)) =
     rev (remdups (rev (map fst (named_of Environment (classified rnd 0 items)))))"
  using index_loop_buckets [of rnd 0 empty_buckets items]
    index_loop_distinct [of empty_buckets rnd 0 items]
    index_loop_keys [of rnd 0 empty_buckets items]
  by (simp add: index_objects_def empty_buckets_def foldl_add_key)

theorem bucket_collisions_witness:
  "named_of Application (classified (\<lambda>i. ''000000'') 0 colliding_apps) =
     [(''Checkout'', [(''name'', JStr ''Checkout''), (''rev'', JInt 1)]),
      (''Billing'', [(''name'', JStr ''Billing'')]),
      (''Checkout'', [(''name'', JStr ''Checkout''), (''rev'', JInt 2)])] \<and>
   map fst (applications (index_objects (\<lambda>i. ''000000'') colliding_apps)) =
     [''Checkout'', ''Billing''] \<and>
   map_of (applications (index_objects (\<lambda>i. ''000000'') colliding_apps)) ''Checkout'' =
     Some [(''name'', JStr ''Checkout''), (''rev'', JInt 2)] \<and>
   applications (index_objects (\<lambda>i. ''000000'') colliding_apps) =
     [(''Checkout'', [(''name'', JStr ''Checkout''), (''rev'', JInt 2)]),
      (''Billing'', [(''name'', JStr ''Billing'')])] \<and>
   map_of (environments (index_objects (\<lambda>i. ''000000'') two_envs)) ''prod'' =
     Some [(''name'', JStr ''prod''), (''tier'', JInt 1)]"
proof -
  have a: "named_of Application (classified (\<lambda>i. ''000000'') 0 colliding_apps) =
     [(''Checkout'', [(''name'', JStr ''Checkout''), (''rev'', JInt 1)]),
      (''Billing'', [(''name'', JStr ''Billing'')]),
      (''Checkout'', [(''name'', JStr ''Checkout''), (''rev'', JInt 2)])]"
    by code_simp
  have e: "named_of Environment (classified (\<lambda>i. ''000000'') 0 two_envs) =
     [(''prod'', [(''name'', JStr ''prod''), (''tier'', JInt 1)]),
      (''prod'', [(''name'', JStr ''prod''), (''tier'', JInt 2)])]"
    by code_simp
  have w: "applications (index_objects (\<lambda>i. ''000000'') colliding_apps) =
     [(''Checkout'', [(''name'', JStr ''Checkout''), (''rev'', JInt 2)]),
      (''Billing'', [(''name'', JStr ''Billing'')])]"
    by code_simp
  from bucket_collisions [of "\<lambda>i. ''000000''" colliding_apps]
    bucket_collisions [of "\<lambda>i. ''000000''" two_envs] a e
  have "map fst (applications (index_objects (\<lambda>i. ''000000'') colliding_apps)) =
     [''Checkout'', ''Billing'']"
    and "map_of (applications (index_objects (\<lambda>i. ''000000'') colliding_apps)) ''Checkout'' =
     Some [(''name'', JStr ''Checkout''), (''rev'', JInt 2)]"
    and "map_of (environments (index_objects (\<lambda>i. ''000000'') two_envs)) ''prod'' =
     Some [(''name'', JStr ''prod''), (''tier'', JInt 1)]"
    by simp_all
  with a w show ?thesis by simp
qed

section \<open>Properties of the associations\<close>

text \<open>
  Claim C1, on the source. The loop over \<^verbatim>\<open>component\<close> and \<^verbatim>\<open>componentName\<close> runs whether or
  not the loop over \<^verbatim>\<open>application\<close> and \<^verbatim>\<open>applicationName\<close> has set \<^verbatim>\<open>owner\<close>, and assigns
  it again: a process with \<^verbatim>\<open>"application": "Checkout"\<close> and \<^verbatim>\<open>"component": "web"\<close> is
  owned by the component, and its steps go to the component's list.
\<close>

theorem explicit_component_overrides_application:
  "first_str_field [''application'', ''applicationName''] both_fields = Some ''Checkout'' \<and>
   resolve_owner [''Checkout''] [''web''] ''deploy'' both_fields = Some (OwnerComp ''web'') \<and>
   associate_processes [''Checkout''] [''web''] [(''deploy'', both_fields)] =
     ([(''Checkout'', [])],
      [(''web'', [\<lparr>step_name = ''Build'', step_description = [], step_properties = []\<rparr>])])"
  by code_simp

subsection \<open>Environment selection\<close>

lemma str_in_empty [simp]: "str_in [] s"
  by (induction s) simp_all

lemma choose_env_spec:
  "choose_env (keys_or envs ''PlaceholderEnv'') app = Inr (env_choice_spec (map fst envs) app)"
proof (cases "map fst envs")
  case Nil
  then show ?thesis
    by (simp add: choose_env_def keys_or_def env_choice_spec_def first_item_def)
next
  case (Cons e es)
  then have k: "keys_or envs ''PlaceholderEnv'' = e # es"
    by (simp add: keys_or_def)
  show ?thesis
  proof (cases "find (\<lambda>e. str_in (lower app) (lower e)) (e # es)")
    case None
    then show ?thesis
      by (simp add: choose_env_def k Cons env_choice_spec_def first_item_def del: find.simps)
  next
    case (Some m)
    show ?thesis
    proof (cases "m = []")
      case False
      with Some show ?thesis
        by (simp add: choose_env_def k Cons env_choice_spec_def first_item_def del: find.simps)
    next
      case True
      from Some have "str_in (lower app) (lower m)"
        unfolding find_Some_iff by blast
      with True have "app = []" by (simp add: lower_def)
      with Some have "m = e" by (simp add: lower_def)
      with Some True show ?thesis
        by (simp add: choose_env_def k Cons env_choice_spec_def first_item_def del: find.simps)
    qed
  qed
qed

lemma env_loop_ok:
  "\<exists>m. env_loop (keys_or envs ''PlaceholderEnv'') acc apps = Inr m \<and>
       (\<forall>app. map_of m app =
          (if app \<in> set apps then Some (env_choice_spec (map fst envs) app) else map_of acc app))"
proof (induction apps arbitrary: acc)
  case Nil
  show ?case by simp
next
  case (Cons a apps)
  from Cons.IH [of "dict_set acc a (env_choice_spec (map fst envs) a)"]
  show ?case
    by (auto simp: choose_env_spec map_of_dict_set)
qed

text \<open>
  Claim C6. For every application name, the two lines of the selection loop choose the
  first known environment whose name contains the application's name, case ignored;
  when none does, the first known environment; and when there is no environment,
  \<^verbatim>\<open>PlaceholderEnv\<close>. The loop never fails and records this choice for every application
  (for \<^verbatim>\<open>PlaceholderApp\<close> when there is none). With the environments \<^verbatim>\<open>prod-east\<close> and
  \<^verbatim>\<open>prod-west\<close> the application \<^verbatim>\<open>east-app\<close> gets \<^verbatim>\<open>prod-east\<close>.
\<close>

theorem environment_selection:
  "choose_env (keys_or envs ''PlaceholderEnv'') app = Inr (env_choice_spec (map fst envs) app) \<and>
   (\<exists>m. select_environments b = Inr m \<and>
        (\<forall>app \<in> set (keys_or (applications b) ''PlaceholderApp'').
           map_of m app = Some (env_choice_spec (map fst (environments b)) app))) \<and>
   choose_env [''prod-east'', ''prod-west''] ''east-app'' = Inr ''prod-east''"
proof -
  have "choose_env [''prod-east'', ''prod-west''] ''east-app'' = Inr ''prod-east''"
    by code_simp
  moreover have "\<exists>m. select_environments b = Inr m \<and>
        (\<forall>app \<in> set (keys_or (applications b) ''PlaceholderApp'').
           map_of m app = Some (env_choice_spec (map fst (environments b)) app))"
    using env_loop_ok [of "environments b" "[]" "keys_or (applications b) ''PlaceholderApp''"]
    by (auto simp: select_environments_def)
  ultimately show ?thesis
    using choose_env_spec by blast
qed

theorem environment_selection_witness:
  "''West'' \<in> set (keys_or (applications sample_buckets) ''PlaceholderApp'') \<and>
   select_environments sample_buckets =
     Inr [(''East-App'', ''prod-east''), (''West'', ''prod-west'')] \<and>
   env_choice_spec (map fst (environments sample_buckets)) ''West'' = ''prod-west'' \<and>
   choose_env (keys_or (environments sample_buckets) ''PlaceholderEnv'') ''West''
     = Inr ''prod-west'' \<and>
   choose_env (keys_or ([] :: (string \<times> obj) list) ''PlaceholderEnv'') ''West''
     = Inr ''PlaceholderEnv''"
proof -
  have a: "''West'' \<in> set (keys_or (applications sample_buckets) ''PlaceholderApp'')"
    by code_simp
  have s: "select_environments sample_buckets =
     Inr [(''East-App'', ''prod-east''), (''West'', ''prod-west'')]"
    by code_simp
  have c: "env_choice_spec (map fst (environments sample_buckets)) ''West'' = ''prod-west''"
    by code_simp
  have d: "env_choice_spec (map fst ([] :: (string \<times> obj) list)) ''West'' = ''PlaceholderEnv''"
    by code_simp
  from environment_selection [of "environments sample_buckets" "''West''" sample_buckets]
    environment_selection [of "[] :: (string \<times> obj) list" "''West''" sample_buckets] a s c d
  show ?thesis by simp
qed

subsection \<open>Services of an application\<close>

lemma entry_names_concat: "entry_names its = concat (map entry_name its)"
  by (induction its)
     (auto simp: entry_name_def py_or_def Let_def split: json.splits)

lemma foldl_dict_set:
  "map_of (foldl (\<lambda>m app. dict_set m (fst app) (f (snd app))) m0 apps) k =
     (case map_of (rev apps) k of Some a \<Rightarrow> Some (f a) | None \<Rightarrow> map_of m0 k)"
proof (induction apps arbitrary: m0)
  case Nil
  show ?case by simp
next
  case (Cons a apps)
  show ?case
    by (simp add: Cons.IH map_of_dict_set map_add_def split: option.splits)
qed

lemma derive_services_lookup:
  assumes "distinct (map fst (applications b))" and "(app, aobj) \<in> set (applications b)"
  shows "map_of (derive_services b) app = Some (services_of (map fst (components b)) aobj)"
proof -
  from assms have "map_of (rev (applications b)) app = Some aobj"
    by (simp add: distinct_rev rev_map [symmetric])
  then show ?thesis
    by (simp add: derive_services_def foldl_dict_set)
qed

lemma dict_get_absent: "\<not> has_key ob k \<Longrightarrow> dict_get ob k = JNull"
  by (simp add: has_key_def dict_get_def map_of_eq_None_iff [THEN iffD2])

text \<open>
  Claim C7. The names collected for an application are those of the entries of the
  lists under \<^verbatim>\<open>components\<close>, \<^verbatim>\<open>componentList\<close> and \<^verbatim>\<open>applicationComponents\<close>, in this
  order: for a mapping entry its \<^verbatim>\<open>name\<close>, \<^verbatim>\<open>component\<close> or \<^verbatim>\<open>componentName\<close> field, for a
  string entry the string. When nothing is collected, and so when none of the three
  keys is there, the service list is the list of all known component names;
  otherwise it is the collected list. This is the list recorded for every
  application of the bucket.
\<close>

theorem services_fallback:
  "listed_components aobj =
     concat (map (\<lambda>key. (case dict_get aobj key of JList v \<Rightarrow> concat (map entry_name v)
                          | _ \<Rightarrow> []))
       [''components'', ''componentList'', ''applicationComponents'']) \<and>
   (listed_components aobj = [] \<longrightarrow> services_of comp_names aobj = comp_names) \<and>
   (listed_components aobj \<noteq> [] \<longrightarrow> services_of comp_names aobj = listed_components aobj) \<and>
   (\<not> has_key aobj ''components'' \<and> \<not> has_key aobj ''componentList'' \<and>
    \<not> has_key aobj ''applicationComponents'' \<longrightarrow> services_of comp_names aobj = comp_names) \<and>
   (distinct (map fst (applications b)) \<longrightarrow>
      (\<forall>app \<in> set (applications b).
         map_of (derive_services b) (fst app) =
           Some (services_of (map fst (components b)) (snd app))))"
proof -
  have "listed_components aobj = []"
    if "\<not> has_key aobj ''components''" "\<not> has_key aobj ''componentList''"
       "\<not> has_key aobj ''applicationComponents''"
    using that by (simp add: listed_components_def dict_get_absent)
  then show ?thesis
    using derive_services_lookup [of b]
    by (auto simp: services_of_def listed_components_def entry_names_concat Let_def
          split: json.splits)
qed

theorem services_fallback_witness:
  "\<not> has_key app_no_components ''components'' \<and>
   \<not> has_key app_no_components ''componentList'' \<and>
   \<not> has_key app_no_components ''applicationComponents'' \<and>
   services_of [''A'', ''B''] app_no_components = [''A'', ''B''] \<and>
   listed_components app_with_components = [''web'', ''db'', ''queue''] \<and>
   services_of [''A'', ''B''] app_with_components = [''web'', ''db'', ''queue'']"
proof -
  have n: "\<not> has_key app_no_components ''components''"
    "\<not> has_key app_no_components ''componentList''"
    "\<not> has_key app_no_components ''applicationComponents''"
    by code_simp+
  have l: "listed_components app_with_components = [''web'', ''db'', ''queue'']"
    by code_simp
  from services_fallback [of app_no_components "[''A'', ''B'']"]
    services_fallback [of app_with_components "[''A'', ''B'']"] n l
  show ?thesis by simp
qed

subsection \<open>Processes without an owner\<close>

text \<open>
  Claim C8. The association part of \<^verbatim>\<open>main\<close> returns its four maps for every content of
  the buckets: the one step that could fail, \<^verbatim>\<open>env_names[0]\<close>, never does. A process for
  which \<^verbatim>\<open>owner\<close> stays \<^verbatim>\<open>None\<close> changes neither step map, and the maps of a run are those
  of the run without this process.
\<close>

theorem association_total_and_drop:
  "(\<exists>r. associate b = Inr r) \<and>
   (resolve_owner app_names comp_names (fst p) (snd p) = None \<longrightarrow>
      associate_one app_names comp_names maps p = maps \<and>
      associate_processes app_names comp_names (ps @ p # qs) =
        associate_processes app_names comp_names (ps @ qs))"
proof -
  obtain m where "select_environments b = Inr m"
    using env_loop_ok [of "environments b" "[]" "keys_or (applications b) ''PlaceholderApp''"]
    by (auto simp: select_environments_def)
  then have total: "\<exists>r. associate b = Inr r"
    by (simp add: associate_def Let_def)
  have drop: "associate_one app_names comp_names maps p = maps"
    if "resolve_owner app_names comp_names (fst p) (snd p) = None" for maps
    using that by (simp add: associate_one_def Let_def)
  from total drop show ?thesis
    by (simp add: associate_processes_def)
qed

theorem association_total_and_drop_witness:
  "resolve_owner [''Checkout''] [''web''] (fst orphan_process) (snd orphan_process) = None \<and>
   associate_processes [''Checkout''] [''web''] [orphan_process, owned_process] =
     ([(''Checkout'',
        [\<lparr>step_name = ''Build'', step_description = [], step_properties = []\<rparr>,
         \<lparr>step_name = ''Deploy'', step_description = [], step_properties = []\<rparr>])],
      [(''web'', [])])"
proof -
  have n: "resolve_owner [''Checkout''] [''web''] (fst orphan_process) (snd orphan_process) = None"
    by code_simp
  have o: "associate_processes [''Checkout''] [''web''] [owned_process] =
     ([(''Checkout'',
        [\<lparr>step_name = ''Build'', step_description = [], step_properties = []\<rparr>,
         \<lparr>step_name = ''Deploy'', step_description = [], step_properties = []\<rparr>])],
      [(''web'', [])])"
    by code_simp
  from association_total_and_drop [of _ "[''Checkout'']" "[''web'']" orphan_process _ "[]"
      "[owned_process]"] n o
  show ?thesis by simp
qed

section \<open>Properties of the traversal on object graphs\<close>



section \<open>The flattener returns on decoded JSON\<close>











end
